theory Spec2Isabelle
  imports Main "HOL-Library.Word" "HOL-Library.FSet" "HOL-Library.Finite_Map"
    "HOL-Library.Product_Lexorder"
begin

section \<open>Data model of the chunk cache\<close>

text \<open>
  The development embeds \<^verbatim>\<open>src/entwine/builder/chunk-cache.cpp\<close>.
  A chunk address (\<^verbatim>\<open>Dxyz\<close>) is a depth and a position (\<^verbatim>\<open>Xyz\<close>).
  Modelled from the spec: the header that declares \<^verbatim>\<open>Xyz\<close> and \<^verbatim>\<open>Dxyz\<close>
  and their comparison is not part of the sources; the order is the one the
  specification gives, lexicographic by depth and then by position, which is
  the order of pairs of \<^verbatim>\<open>HOL-Library.Product_Lexorder\<close>.
\<close>

type_synonym xyz = "nat \<times> nat \<times> nat"
type_synonym dxyz = "nat \<times> xyz"

text \<open>
  The process-wide statistics (\<^verbatim>\<open>ChunkCache::Info info\<close>, guarded by
  \<^verbatim>\<open>infoSpin\<close>): three unsigned 64-bit counters.
\<close>

record Info =
  written :: "64 word"
  read :: "64 word"
  alive :: "64 word"

text \<open>
  \<^verbatim>\<open>ChunkCache::latchInfo\<close>, lines 25-32: the body runs under one
  \<^verbatim>\<open>SpinGuard\<close>; it copies the counters, zeroes \<^verbatim>\<open>written\<close> and
  \<^verbatim>\<open>read\<close> and returns the copy. The result is the pair of the returned
  copy and the counters left behind.
\<close>

definition latchInfo :: "Info \<Rightarrow> Info \<times> Info" where
  "latchInfo info =
     (let latched = info;
          info = info\<lparr>written := 0\<rparr>;
          info = info\<lparr>read := 0\<rparr>
      in (latched, info))"


subsection \<open>Slots, locks and the cache state\<close>

text \<open>
  Modelled from the spec: the class \<^verbatim>\<open>NewReffedChunk\<close> (the reference-counted
  slot) is declared in a header that is not part of the sources. The
  specification gives it as \<^verbatim>\<open>{ chunk: Option<Chunk>, refCount: unsigned, lock }\<close>.
  The content of a resident chunk is abstracted to the number of points it
  holds; the reference count is a natural number (the 64-bit counter is never
  near its bound, so its wrap-around is left out). The slot's lock is kept in
  the lock table below.
\<close>

record NewReffedChunk =
  m_refs :: nat
  m_chunk :: "nat option"

definition ref_add :: "NewReffedChunk \<Rightarrow> NewReffedChunk" where
  "ref_add r = r\<lparr>m_refs := m_refs r + 1\<rparr>"

definition ref_del :: "NewReffedChunk \<Rightarrow> NewReffedChunk" where
  "ref_del r = r\<lparr>m_refs := m_refs r - 1\<rparr>"

definition ref_exists :: "NewReffedChunk \<Rightarrow> bool" where
  "ref_exists r = (m_chunk r \<noteq> None)"

definition ref_reset :: "NewReffedChunk \<Rightarrow> NewReffedChunk" where
  "ref_reset r = r\<lparr>m_chunk := None\<rparr>"

definition ref_assign :: "NewReffedChunk \<Rightarrow> NewReffedChunk" where
  "ref_assign r = r\<lparr>m_chunk := Some 0\<rparr>"

text \<open>
  Modelled from the spec: \<^verbatim>\<open>Chunk::load(in, tmp, pointCount)\<close> brings the
  persisted points back into the chunk, \<^verbatim>\<open>Chunk::insert\<close> adds one point.
\<close>

definition chunk_load :: "nat \<Rightarrow> NewReffedChunk \<Rightarrow> NewReffedChunk" where
  "chunk_load np r = r\<lparr>m_chunk := map_option (\<lambda>c. c + np) (m_chunk r)\<rparr>"

definition chunk_insert :: "NewReffedChunk \<Rightarrow> NewReffedChunk" where
  "chunk_insert r = r\<lparr>m_chunk := map_option Suc (m_chunk r)\<rparr>"

text \<open>
  The three lock domains: \<^verbatim>\<open>m_spins[depth]\<close>, \<^verbatim>\<open>ref.spin()\<close> of the slot at an
  address, and \<^verbatim>\<open>m_ownedSpin\<close>.
\<close>

datatype lock = SliceSpin nat | ChunkSpin dxyz | OwnedSpin

datatype error =
    AssertionFailed nat
  | OutOfRange nat
  | Negative nat
  | Dangling nat

text \<open>
  A thread is idle or inside one of the cache's functions. A frame names the
  lock operation the thread performs next (by its line in the source) and
  carries the local variables that are live there. One step of a thread is
  that lock operation together with the statements that follow it up to the
  next lock operation of the same thread.
\<close>

datatype addref_pc = A86 | A96 | A99 | A128 | A132 | A136 | A142 bool | A160 | A171 | A190

datatype prune_pc = P198 | P206 | P214 | P215 | P218 | P222 | P224 | P226

datatype purge_pc = M239 | M242 | M255 | M256 | M257 | M266 | M266s

datatype purge_loop_pc = M232 | M264 | M267

datatype ser_pc = S272 | S284 | S287 | S291 | S291s | S309 | S327

datatype erase_pc = E334 | E339 | E342 | E344 | E344s | E358

text \<open>
  The locals: \<^verbatim>\<open>addRef\<close> has the address \<^verbatim>\<open>ck\<close> (and at its exit whether the
  reclaim branch of line 136 has locked the slot again); \<^verbatim>\<open>prune\<close> has the
  depth, the key of the current entry of \<^verbatim>\<open>stale\<close> and the entries after it
  (the keys of a \<^verbatim>\<open>std::map\<close>, in its order); \<^verbatim>\<open>maybePurge\<close> has
  \<^verbatim>\<open>maxCacheSize\<close>, whether the destructor called it, and inside an
  iteration the address \<^verbatim>\<open>dxyz\<close> (the counter \<^verbatim>\<open>disowned\<close> is never read and
  is left out); \<^verbatim>\<open>maybeSerialize\<close> and \<^verbatim>\<open>maybeErase\<close> have the address.
\<close>

datatype frame =
    Idle
  | AddRef addref_pc dxyz
  | Prune prune_pc nat xyz "xyz list"
  | Prune_227 nat
  | MaybePurge purge_pc nat bool dxyz
  | MaybePurgeLoop purge_loop_pc nat bool
  | Dtor_50
  | MaybeSerialize ser_pc dxyz
  | MaybeErase erase_pc dxyz

text \<open>
  The cache with its collaborators and its threads: the depth slices, the
  ownership list, the statistics, the hierarchy (\<^verbatim>\<open>get\<close> gives 0 for an address
  never set), the chunks saved to the output endpoint, the serialization tasks
  queued in the task pool, the owner of every lock, and for every thread its
  frame and the addresses its pruner holds.
\<close>

record 't ChunkCache =
  m_slices :: "(xyz, NewReffedChunk) fmap list"
  m_owned :: "dxyz fset"
  info :: Info
  m_hierarchy :: "dxyz \<Rightarrow> nat"
  m_out :: "(dxyz \<times> nat) list"
  m_pool :: "dxyz list"
  m_spins :: "lock \<rightharpoonup> 't"
  frames :: "'t \<Rightarrow> frame"
  pruners :: "'t \<Rightarrow> dxyz set"

datatype 't outcome = Next "'t ChunkCache" | Blocked | Fail error

text \<open>
  \<^verbatim>\<open>m_slices\<close> is an array with one finite map per depth. \<open>slot\<close> is the lookup
  \<^verbatim>\<open>m_slices[depth].find(position)\<close>, \<open>put_slot\<close> stores a slot there and
  \<open>erase_slot\<close> is \<^verbatim>\<open>slice.erase(it)\<close>.
\<close>

type_synonym slices = "(xyz, NewReffedChunk) fmap list"

definition slices_find :: "slices \<Rightarrow> dxyz \<Rightarrow> NewReffedChunk option" where
  "slices_find sl a = (if fst a < length sl then fmlookup (sl ! fst a) (snd a) else None)"

definition slices_put :: "dxyz \<Rightarrow> NewReffedChunk \<Rightarrow> slices \<Rightarrow> slices" where
  "slices_put a r sl = sl[fst a := fmupd (snd a) r (sl ! fst a)]"

definition slices_erase :: "dxyz \<Rightarrow> slices \<Rightarrow> slices" where
  "slices_erase a sl = sl[fst a := fmdrop (snd a) (sl ! fst a)]"

definition slot :: "'t ChunkCache \<Rightarrow> dxyz \<Rightarrow> NewReffedChunk option" where
  "slot s a = slices_find (m_slices s) a"

definition put_slot :: "dxyz \<Rightarrow> NewReffedChunk \<Rightarrow> 't ChunkCache \<Rightarrow> 't ChunkCache" where
  "put_slot a r s = s\<lparr>m_slices := slices_put a r (m_slices s)\<rparr>"

definition erase_slot :: "dxyz \<Rightarrow> 't ChunkCache \<Rightarrow> 't ChunkCache" where
  "erase_slot a s = s\<lparr>m_slices := slices_erase a (m_slices s)\<rparr>"

definition locked :: "lock \<Rightarrow> 't ChunkCache \<Rightarrow> bool" where
  "locked l s = (m_spins s l \<noteq> None)"

definition lock :: "'t \<Rightarrow> lock \<Rightarrow> 't ChunkCache \<Rightarrow> 't ChunkCache" where
  "lock t l s = s\<lparr>m_spins := (m_spins s)(l \<mapsto> t)\<rparr>"

definition unlock :: "lock \<Rightarrow> 't ChunkCache \<Rightarrow> 't ChunkCache" where
  "unlock l s = s\<lparr>m_spins := (m_spins s)(l := None)\<rparr>"

definition goto :: "'t \<Rightarrow> frame \<Rightarrow> 't ChunkCache \<Rightarrow> 't ChunkCache" where
  "goto t f s = s\<lparr>frames := (frames s)(t := f)\<rparr>"

definition pruner_set :: "'t \<Rightarrow> dxyz \<Rightarrow> 't ChunkCache \<Rightarrow> 't ChunkCache" where
  "pruner_set t a s = s\<lparr>pruners := (pruners s)(t := insert a (pruners s t))\<rparr>"

definition incr_read :: "'t ChunkCache \<Rightarrow> 't ChunkCache" where
  "incr_read s = s\<lparr>info := (info s)\<lparr>read := read (info s) + 1\<rparr>\<rparr>"

definition incr_written :: "'t ChunkCache \<Rightarrow> 't ChunkCache" where
  "incr_written s = s\<lparr>info := (info s)\<lparr>written := written (info s) + 1\<rparr>\<rparr>"

definition incr_alive :: "'t ChunkCache \<Rightarrow> 't ChunkCache" where
  "incr_alive s = s\<lparr>info := (info s)\<lparr>alive := alive (info s) + 1\<rparr>\<rparr>"

definition decr_alive :: "'t ChunkCache \<Rightarrow> 't ChunkCache" where
  "decr_alive s = s\<lparr>info := (info s)\<lparr>alive := alive (info s) - 1\<rparr>\<rparr>"


subsection \<open>The steps of a thread\<close>

text \<open>
  The head of the loop of \<^verbatim>\<open>prune\<close> (lines 200-205) on the entries still to
  do: the function's exit when none is left, else the assertion that the key
  is in the slice.
\<close>

fun prune_iter :: "'t \<Rightarrow> nat \<Rightarrow> xyz list \<Rightarrow> 't ChunkCache \<Rightarrow> 't outcome" where
  "prune_iter t d [] s = Next (goto t (Prune_227 d) s)"
| "prune_iter t d (k # rest) s =
     (if slot s (d, k) = None then Fail (AssertionFailed 203)
      else Next (goto t (Prune P206 d k rest) s))"

text \<open>
  The head of the loop of \<^verbatim>\<open>maybePurge\<close> (lines 233-238): while the
  ownership list is larger than \<^verbatim>\<open>maxCacheSize\<close>, take its last element
  (\<^verbatim>\<open>*m_owned.rbegin()\<close>).
\<close>

definition purge_iter :: "'t \<Rightarrow> nat \<Rightarrow> bool \<Rightarrow> 't ChunkCache \<Rightarrow> 't outcome" where
  "purge_iter t mx dt s =
     (if fcard (m_owned s) > mx
      then Next (goto t (MaybePurge M239 mx dt (fMax (m_owned s))) s)
      else Next (goto t (MaybePurgeLoop M267 mx dt) s))"

text \<open>A thread runs a task of the pool while it is in one of these frames.\<close>

fun in_task :: "frame \<Rightarrow> bool" where
  "in_task (MaybeSerialize _ _) = True"
| "in_task (MaybeErase _ _) = True"
| "in_task _ = False"

fun step :: "'t \<Rightarrow> frame \<Rightarrow> 't ChunkCache \<Rightarrow> 't outcome" where
  "step t Idle s = Blocked"
\<comment> \<open>\<^verbatim>\<open>addRef\<close>, lines 86-91 and 146-157\<close>
| "step t (AddRef A86 ck) s =
     (if \<not> fst ck < length (m_slices s) then Fail (OutOfRange 86)
      else if locked (SliceSpin (fst ck)) s then Blocked
      else let s = lock t (SliceSpin (fst ck)) s in
        (case slot s ck of
           Some r \<Rightarrow> Next (goto t (AddRef A96 ck) s)
         | None \<Rightarrow>
            Next (goto t (AddRef A160 ck)
              (incr_alive (put_slot ck \<lparr>m_refs = 0, m_chunk = Some 0\<rparr> s)))))"
\<comment> \<open>lines 96-97\<close>
| "step t (AddRef A96 ck) s =
     (if locked (ChunkSpin ck) s then Blocked
      else let s = lock t (ChunkSpin ck) s in
        (case slot s ck of
           None \<Rightarrow> Fail (Dangling 97)
         | Some r \<Rightarrow> Next (goto t (AddRef A99 ck) (put_slot ck (ref_add r) s))))"
\<comment> \<open>lines 99-126\<close>
| "step t (AddRef A99 ck) s =
     (let s = unlock (SliceSpin (fst ck)) s in
        (case slot s ck of
           None \<Rightarrow> Fail (Dangling 101)
         | Some r \<Rightarrow>
            if \<not> ref_exists r then
              if m_refs r \<noteq> 1 then Fail (AssertionFailed 103)
              else let r = ref_assign r;
                       s = incr_read s;
                       np = m_hierarchy s ck
                   in if np = 0 then Fail (AssertionFailed 119)
                      else Next (goto t (AddRef A128 ck)
                             (put_slot ck (chunk_load np r) (pruner_set t ck s)))
            else Next (goto t (AddRef A128 ck) (pruner_set t ck s))))"
\<comment> \<open>line 128\<close>
| "step t (AddRef A128 ck) s =
     Next (goto t (AddRef A132 ck) (unlock (ChunkSpin ck) s))"
\<comment> \<open>lines 132-134\<close>
| "step t (AddRef A132 ck) s =
     (if locked OwnedSpin s then Blocked
      else let s = lock t OwnedSpin s in
        if ck |\<in>| m_owned s then Next (goto t (AddRef A136 ck) s)
        else Next (goto t (AddRef (A142 False) ck) s))"
\<comment> \<open>lines 136-139\<close>
| "step t (AddRef A136 ck) s =
     (if locked (ChunkSpin ck) s then Blocked
      else let s = lock t (ChunkSpin ck) s in
        (case slot s ck of
           None \<Rightarrow> Fail (Dangling 137)
         | Some r \<Rightarrow>
            if \<not> m_refs r > 1 then Fail (AssertionFailed 137)
            else Next (goto t (AddRef (A142 True) ck)
                   (put_slot ck (ref_del r) s\<lparr>m_owned := m_owned s |-| {|ck|}\<rparr>))))"
\<comment> \<open>line 142: the guards of \<^verbatim>\<open>ownedLock\<close> and \<^verbatim>\<open>chunkLock\<close> go out of scope\<close>
| "step t (AddRef (A142 reclaimed) ck) s =
     (let s = unlock OwnedSpin s;
          s = (if reclaimed then unlock (ChunkSpin ck) s else s)
      in Next (goto t Idle s))"
\<comment> \<open>lines 160-169\<close>
| "step t (AddRef A160 ck) s =
     (if locked (ChunkSpin ck) s then Blocked
      else let s = lock t (ChunkSpin ck) s in
        (case slot s ck of
           None \<Rightarrow> Fail (Dangling 163)
         | Some r \<Rightarrow>
            if m_refs r \<noteq> 0 then Fail (AssertionFailed 163)
            else if \<not> ref_exists r then Fail (AssertionFailed 164)
            else Next (goto t (AddRef A171 ck)
                   (pruner_set t ck (put_slot ck (ref_add r) s)))))"
\<comment> \<open>lines 171-188\<close>
| "step t (AddRef A171 ck) s =
     (let s = unlock (SliceSpin (fst ck)) s;
          np = m_hierarchy s ck
      in if np \<noteq> 0 then
           (case slot s ck of
              None \<Rightarrow> Fail (Dangling 187)
            | Some r \<Rightarrow>
               Next (goto t (AddRef A190 ck) (put_slot ck (chunk_load np r) (incr_read s))))
         else Next (goto t (AddRef A190 ck) s))"
\<comment> \<open>line 190: the guard of \<^verbatim>\<open>chunkLock\<close> goes out of scope\<close>
| "step t (AddRef A190 ck) s = Next (goto t Idle (unlock (ChunkSpin ck) s))"
\<comment> \<open>\<^verbatim>\<open>prune\<close>, lines 197-205\<close>
| "step t (Prune P198 d k rest) s =
     (if \<not> d < length (m_slices s) then Fail (OutOfRange 197)
      else if locked (SliceSpin d) s then Blocked
      else prune_iter t d (k # rest) (lock t (SliceSpin d) s))"
\<comment> \<open>lines 205-212\<close>
| "step t (Prune P206 d k rest) s =
     (if locked (ChunkSpin (d, k)) s then Blocked
      else let s = lock t (ChunkSpin (d, k)) s in
        (case slot s (d, k) of
           None \<Rightarrow> Fail (OutOfRange 205)
         | Some r \<Rightarrow>
            if m_refs r = 0 then Fail (AssertionFailed 208)
            else if m_refs (ref_del r) = 0
              then Next (goto t (Prune P214 d k rest) (put_slot (d, k) (ref_add (ref_del r)) s))
              else Next (goto t (Prune P226 d k rest) (put_slot (d, k) (ref_del r) s))))"
\<comment> \<open>line 214\<close>
| "step t (Prune P214 d k rest) s =
     Next (goto t (Prune P215 d k rest) (unlock (ChunkSpin (d, k)) s))"
\<comment> \<open>line 215\<close>
| "step t (Prune P215 d k rest) s =
     Next (goto t (Prune P218 d k rest) (unlock (SliceSpin d) s))"
\<comment> \<open>lines 218-221\<close>
| "step t (Prune P218 d k rest) s =
     (if locked OwnedSpin s then Blocked
      else let s = lock t OwnedSpin s in
        if (d, k) |\<in>| m_owned s then Fail (AssertionFailed 220)
        else Next (goto t (Prune P222 d k rest) (s\<lparr>m_owned := finsert (d, k) (m_owned s)\<rparr>)))"
\<comment> \<open>line 222: the guard of \<^verbatim>\<open>ownedLock\<close> goes out of scope\<close>
| "step t (Prune P222 d k rest) s =
     Next (goto t (Prune P224 d k rest) (unlock OwnedSpin s))"
\<comment> \<open>line 224, then the next iteration\<close>
| "step t (Prune P224 d k rest) s =
     (if locked (SliceSpin d) s then Blocked
      else prune_iter t d rest (lock t (SliceSpin d) s))"
\<comment> \<open>line 226 when the count stayed above zero: \<^verbatim>\<open>chunkLock\<close> goes out of
    scope, then the next iteration\<close>
| "step t (Prune P226 d k rest) s =
     prune_iter t d rest (unlock (ChunkSpin (d, k)) s)"
\<comment> \<open>line 227: \<^verbatim>\<open>sliceLock\<close> goes out of scope\<close>
| "step t (Prune_227 d) s = Next (goto t Idle (unlock (SliceSpin d) s))"
\<comment> \<open>\<^verbatim>\<open>maybePurge\<close>, lines 232-238\<close>
| "step t (MaybePurgeLoop M232 mx dt) s =
     (if locked OwnedSpin s then Blocked
      else purge_iter t mx dt (lock t OwnedSpin s))"
\<comment> \<open>lines 239-241; \<^verbatim>\<open>slice.at\<close> throws when the position is missing\<close>
| "step t (MaybePurge M239 mx dt a) s =
     (if locked (SliceSpin (fst a)) s then Blocked
      else let s = lock t (SliceSpin (fst a)) s in
        (case slot s a of
           None \<Rightarrow> Fail (OutOfRange 241)
         | Some r \<Rightarrow> Next (goto t (MaybePurge M242 mx dt a) s)))"
\<comment> \<open>lines 242-250\<close>
| "step t (MaybePurge M242 mx dt a) s =
     (if locked (ChunkSpin a) s then Blocked
      else let s = lock t (ChunkSpin a) s;
               s = s\<lparr>m_owned := m_owned s |-| {|fMax (m_owned s)|}\<rparr>
           in
        (case slot s a of
           None \<Rightarrow> Fail (Dangling 248)
         | Some r \<Rightarrow>
            if \<not> (mx \<noteq> 0 \<or> m_refs r = 1) then Fail (AssertionFailed 248)
            else if m_refs r = 0 then Fail (Negative 250)
            else if m_refs (ref_del r) = 0
              then Next (goto t (MaybePurge M255 mx dt a) (put_slot a (ref_del r) s))
              else Next (goto t (MaybePurge M266 mx dt a) (put_slot a (ref_del r) s))))"
\<comment> \<open>line 255\<close>
| "step t (MaybePurge M255 mx dt a) s =
     Next (goto t (MaybePurge M256 mx dt a) (unlock (ChunkSpin a) s))"
\<comment> \<open>line 256\<close>
| "step t (MaybePurge M256 mx dt a) s =
     Next (goto t (MaybePurge M257 mx dt a) (unlock (SliceSpin (fst a)) s))"
\<comment> \<open>lines 257-262: the task is queued with no lock held\<close>
| "step t (MaybePurge M257 mx dt a) s =
     (let s = unlock OwnedSpin s
      in Next (goto t (MaybePurgeLoop M264 mx dt) (s\<lparr>m_pool := m_pool s @ [a]\<rparr>)))"
\<comment> \<open>line 264, then the next iteration\<close>
| "step t (MaybePurgeLoop M264 mx dt) s =
     (if locked OwnedSpin s then Blocked
      else purge_iter t mx dt (lock t OwnedSpin s))"
\<comment> \<open>line 266 when the count stayed above zero: \<^verbatim>\<open>chunkLock\<close>, then
    \<^verbatim>\<open>sliceLock\<close> go out of scope, then the next iteration\<close>
| "step t (MaybePurge M266 mx dt a) s =
     Next (goto t (MaybePurge M266s mx dt a) (unlock (ChunkSpin a) s))"
| "step t (MaybePurge M266s mx dt a) s =
     purge_iter t mx dt (unlock (SliceSpin (fst a)) s)"
\<comment> \<open>line 267: \<^verbatim>\<open>ownedLock\<close> goes out of scope; the destructor goes on
    at line 50\<close>
| "step t (MaybePurgeLoop M267 mx dt) s =
     Next (goto t (if dt then Dtor_50 else Idle) (unlock OwnedSpin s))"
\<comment> \<open>the destructor, lines 50-59: \<^verbatim>\<open>m_pool.join()\<close> waits until no task is
    queued or running\<close>
| "step t Dtor_50 s =
     (if m_pool s \<noteq> [] \<or> (\<exists>u. in_task (frames s u)) then Blocked
      else if \<not> list_all (\<lambda>slice. slice = fmempty) (m_slices s)
        then Fail (AssertionFailed 52)
      else Next (goto t Idle s))"
\<comment> \<open>\<^verbatim>\<open>maybeSerialize\<close>, lines 272-284\<close>
| "step t (MaybeSerialize S272 a) s =
     (if locked (SliceSpin (fst a)) s then Blocked
      else let s = lock t (SliceSpin (fst a)) s in
        (case slot s a of
           None \<Rightarrow> Next (goto t (MaybeSerialize S284 a) s)
         | Some r \<Rightarrow> Next (goto t (MaybeSerialize S287 a) s)))"
\<comment> \<open>the return of line 284: \<^verbatim>\<open>sliceLock\<close> goes out of scope\<close>
| "step t (MaybeSerialize S284 a) s =
     Next (goto t Idle (unlock (SliceSpin (fst a)) s))"
\<comment> \<open>lines 287-300\<close>
| "step t (MaybeSerialize S287 a) s =
     (if locked (ChunkSpin a) s then Blocked
      else let s = lock t (ChunkSpin a) s in
        (case slot s a of
           None \<Rightarrow> Fail (Dangling 291)
         | Some r \<Rightarrow>
            if m_refs r \<noteq> 0 then Next (goto t (MaybeSerialize S291 a) s)
            else if \<not> ref_exists r then Next (goto t (MaybeSerialize S291 a) s)
            else Next (goto t (MaybeSerialize S309 a) s)))"
\<comment> \<open>the returns of lines 291 and 300: \<^verbatim>\<open>chunkLock\<close>, then \<^verbatim>\<open>sliceLock\<close>
    go out of scope\<close>
| "step t (MaybeSerialize S291 a) s =
     Next (goto t (MaybeSerialize S291s a) (unlock (ChunkSpin a) s))"
| "step t (MaybeSerialize S291s a) s =
     Next (goto t Idle (unlock (SliceSpin (fst a)) s))"
\<comment> \<open>lines 309-326\<close>
| "step t (MaybeSerialize S309 a) s =
     (let s = unlock (SliceSpin (fst a)) s in
        (case slot s a of
           None \<Rightarrow> Fail (Dangling 311)
         | Some r \<Rightarrow>
            (case m_chunk r of
               None \<Rightarrow> Fail (AssertionFailed 311)
             | Some c \<Rightarrow>
                let s = incr_written s;
                    np = c;
                    s = s\<lparr>m_out := m_out s @ [(a, np)]\<rparr>;
                    s = s\<lparr>m_hierarchy := (m_hierarchy s)(a := np)\<rparr>
                in if np = 0 then Fail (AssertionFailed 320)
                   else Next (goto t (MaybeSerialize S327 a) (put_slot a (ref_reset r) s)))))"
\<comment> \<open>lines 327-329\<close>
| "step t (MaybeSerialize S327 a) s =
     Next (goto t (MaybeErase E334 a) (unlock (ChunkSpin a) s))"
\<comment> \<open>\<^verbatim>\<open>maybeErase\<close>, lines 334-339\<close>
| "step t (MaybeErase E334 a) s =
     (if locked (SliceSpin (fst a)) s then Blocked
      else let s = lock t (SliceSpin (fst a)) s in
        (case slot s a of
           None \<Rightarrow> Next (goto t (MaybeErase E339 a) s)
         | Some r \<Rightarrow> Next (goto t (MaybeErase E342 a) s)))"
\<comment> \<open>the return of line 339\<close>
| "step t (MaybeErase E339 a) s =
     Next (goto t Idle (unlock (SliceSpin (fst a)) s))"
\<comment> \<open>lines 342-357; erasing the slot destroys its lock\<close>
| "step t (MaybeErase E342 a) s =
     (if locked (ChunkSpin a) s then Blocked
      else let s = lock t (ChunkSpin a) s in
        (case slot s a of
           None \<Rightarrow> Fail (Dangling 344)
         | Some r \<Rightarrow>
            if m_refs r \<noteq> 0 then Next (goto t (MaybeErase E344 a) s)
            else if ref_exists r then Next (goto t (MaybeErase E344 a) s)
            else Next (goto t (MaybeErase E358 a)
                   (decr_alive (unlock (ChunkSpin a) (erase_slot a s))))))"
\<comment> \<open>the returns of lines 344 and 345\<close>
| "step t (MaybeErase E344 a) s =
     Next (goto t (MaybeErase E344s a) (unlock (ChunkSpin a) s))"
| "step t (MaybeErase E344s a) s =
     Next (goto t Idle (unlock (SliceSpin (fst a)) s))"
\<comment> \<open>line 358: \<^verbatim>\<open>sliceLock\<close> goes out of scope\<close>
| "step t (MaybeErase E358 a) s =
     Next (goto t Idle (unlock (SliceSpin (fst a)) s))"


subsection \<open>Running threads\<close>

definition thread_step :: "'t \<Rightarrow> 't ChunkCache \<Rightarrow> 't outcome" where
  "thread_step t s = step t (frames s t) s"

text \<open>\<open>run n t s\<close> lets thread \<open>t\<close> take \<open>n\<close> steps with no other thread in between.\<close>

fun run :: "nat \<Rightarrow> 't \<Rightarrow> 't ChunkCache \<Rightarrow> 't outcome" where
  "run 0 t s = Next s"
| "run (Suc n) t s =
     (case thread_step t s of
        Next s' \<Rightarrow> run n t s'
      | Blocked \<Rightarrow> Blocked
      | Fail e \<Rightarrow> Fail e)"

text \<open>The states such a run goes through, the first one included.\<close>

fun trace :: "nat \<Rightarrow> 't \<Rightarrow> 't ChunkCache \<Rightarrow> 't ChunkCache list" where
  "trace 0 t s = [s]"
| "trace (Suc n) t s =
     s # (case thread_step t s of Next s' \<Rightarrow> trace n t s' | Blocked \<Rightarrow> [] | Fail e \<Rightarrow> [])"

text \<open>
  What an idle thread can start. \<^verbatim>\<open>insert\<close> (lines 62-81) calls \<^verbatim>\<open>addRef\<close>
  for an address its pruner does not hold. Modelled from the spec: the pruner
  (not part of the sources) reports the entries of one depth that went stale
  with \<^verbatim>\<open>prune\<close> and forgets them; \<^verbatim>\<open>prune\<close> returns at once when the map is
  empty (line 195). A worker of the task pool takes the task queued first and
  runs \<^verbatim>\<open>maybeSerialize\<close>. The destructor starts with \<^verbatim>\<open>maybePurge(0)\<close>
  (line 49). \<^verbatim>\<open>latchInfo\<close> is one critical section. Modelled from the spec:
  \<^verbatim>\<open>Chunk::insert\<close> adds a point to a resident chunk.
\<close>

datatype call =
    CallAddRef dxyz
  | CallPrune nat "xyz list"
  | CallMaybePurge nat
  | CallDestroy
  | CallLatchInfo
  | CallChunkInsert dxyz
  | RunTask

fun invoke :: "'t \<Rightarrow> call \<Rightarrow> 't ChunkCache \<Rightarrow> 't ChunkCache option" where
  "invoke t (CallAddRef ck) s = Some (goto t (AddRef A86 ck) s)"
| "invoke t (CallPrune d []) s = Some s"
| "invoke t (CallPrune d (k # rest)) s =
     Some (goto t (Prune P198 d k rest)
       (s\<lparr>pruners := (pruners s)(t := pruners s t - Pair d ` set (k # rest))\<rparr>))"
| "invoke t (CallMaybePurge mx) s = Some (goto t (MaybePurgeLoop M232 mx False) s)"
| "invoke t CallDestroy s = Some (goto t (MaybePurgeLoop M232 0 True) s)"
| "invoke t CallLatchInfo s = Some (s\<lparr>info := snd (latchInfo (info s))\<rparr>)"
| "invoke t (CallChunkInsert a) s =
     (case slot s a of
        None \<Rightarrow> None
      | Some r \<Rightarrow> if ref_exists r then Some (put_slot a (chunk_insert r) s) else None)"
| "invoke t RunTask s =
     (case m_pool s of
        [] \<Rightarrow> None
      | a # queue \<Rightarrow> Some (goto t (MaybeSerialize S272 a) (s\<lparr>m_pool := queue\<rparr>)))"

text \<open>A new cache over a hierarchy (line 34-45), with \<open>n\<close> depths: nothing is resident.\<close>

definition init :: "nat \<Rightarrow> (dxyz \<Rightarrow> nat) \<Rightarrow> 't ChunkCache" where
  "init n h =
     \<lparr>m_slices = replicate n fmempty, m_owned = {||},
      info = \<lparr>written = 0, read = 0, alive = 0\<rparr>,
      m_hierarchy = h, m_out = [], m_pool = [], m_spins = Map.empty,
      frames = (\<lambda>t. Idle), pruners = (\<lambda>t. {})\<rparr>"

subsection \<open>Executions\<close>

text \<open>
  What the callers of the cache are taken to do. \<^verbatim>\<open>insert\<close> asks for a
  reference only when the thread's pruner has none (lines 69-72); a pruner
  reports as stale, once each, addresses it holds; points are inserted into
  chunks the thread holds; tasks are run by the pool at any time. The
  destructor runs when every reference has been given back and no thread is
  inside the cache other than the pool's workers, and no other call is made
  on a cache that is being destroyed.
\<close>

fun destroying :: "frame \<Rightarrow> bool" where
  "destroying (MaybePurge _ _ dt _) = dt"
| "destroying (MaybePurgeLoop _ _ dt) = dt"
| "destroying Dtor_50 = True"
| "destroying _ = False"

fun allowed :: "'t \<Rightarrow> call \<Rightarrow> 't ChunkCache \<Rightarrow> bool" where
  "allowed t (CallAddRef ck) s = (ck \<notin> pruners s t \<and> (\<forall>u. \<not> destroying (frames s u)))"
| "allowed t (CallPrune d ks) s =
     (distinct ks \<and> (\<forall>k \<in> set ks. (d, k) \<in> pruners s t) \<and> (\<forall>u. \<not> destroying (frames s u)))"
| "allowed t (CallMaybePurge mx) s = (\<forall>u. \<not> destroying (frames s u))"
| "allowed t CallDestroy s =
     ((\<forall>u. pruners s u = {}) \<and> (\<forall>u. frames s u = Idle \<or> in_task (frames s u)))"
| "allowed t CallLatchInfo s = True"
| "allowed t (CallChunkInsert a) s = (a \<in> pruners s t)"
| "allowed t RunTask s = True"

text \<open>
  The states a cache of \<open>n\<close> depths over the hierarchy \<open>h\<close> can be in: idle
  threads start calls, threads inside a call take steps, in any order. A step
  that fails an assertion ends the process and has no successor.
\<close>

inductive reachable :: "nat \<Rightarrow> (dxyz \<Rightarrow> nat) \<Rightarrow> 't ChunkCache \<Rightarrow> bool" for n h where
  reachable_init: "reachable n h (init n h)"
| reachable_call:
    "reachable n h s \<Longrightarrow> frames s t = Idle \<Longrightarrow> allowed t c s \<Longrightarrow> invoke t c s = Some s'
     \<Longrightarrow> reachable n h s'"
| reachable_step:
    "reachable n h s \<Longrightarrow> thread_step t s = Next s' \<Longrightarrow> reachable n h s'"

text \<open>
  A schedule is a list of actions, each a call started by an idle thread or a
  step of a thread; \<open>play\<close> runs it, and gives nothing when an action cannot
  be taken.
\<close>

datatype 't action = Call 't call | Step 't

fun play :: "'t action list \<Rightarrow> 't ChunkCache \<Rightarrow> 't ChunkCache option" where
  "play [] s = Some s"
| "play (Call t c # acts) s =
     (if frames s t = Idle \<and> allowed t c s
      then (case invoke t c s of Some s' \<Rightarrow> play acts s' | None \<Rightarrow> None)
      else None)"
| "play (Step t # acts) s =
     (case thread_step t s of Next s' \<Rightarrow> play acts s' | Blocked \<Rightarrow> None | Fail e \<Rightarrow> None)"

text \<open>The locks a thread holds when it is at a frame, read off the source.\<close>

fun held :: "frame \<Rightarrow> lock set" where
  "held Idle = {}"
| "held (AddRef A86 ck) = {}"
| "held (AddRef A96 ck) = {SliceSpin (fst ck)}"
| "held (AddRef A99 ck) = {SliceSpin (fst ck), ChunkSpin ck}"
| "held (AddRef A128 ck) = {ChunkSpin ck}"
| "held (AddRef A132 ck) = {}"
| "held (AddRef A136 ck) = {OwnedSpin}"
| "held (AddRef (A142 reclaimed) ck) = (if reclaimed then {OwnedSpin, ChunkSpin ck} else {OwnedSpin})"
| "held (AddRef A160 ck) = {SliceSpin (fst ck)}"
| "held (AddRef A171 ck) = {SliceSpin (fst ck), ChunkSpin ck}"
| "held (AddRef A190 ck) = {ChunkSpin ck}"
| "held (Prune P198 d k rest) = {}"
| "held (Prune P206 d k rest) = {SliceSpin d}"
| "held (Prune P214 d k rest) = {SliceSpin d, ChunkSpin (d, k)}"
| "held (Prune P215 d k rest) = {SliceSpin d}"
| "held (Prune P218 d k rest) = {}"
| "held (Prune P222 d k rest) = {OwnedSpin}"
| "held (Prune P224 d k rest) = {}"
| "held (Prune P226 d k rest) = {SliceSpin d, ChunkSpin (d, k)}"
| "held (Prune_227 d) = {SliceSpin d}"
| "held (MaybePurgeLoop M232 mx dt) = {}"
| "held (MaybePurgeLoop M264 mx dt) = {}"
| "held (MaybePurgeLoop M267 mx dt) = {OwnedSpin}"
| "held (MaybePurge M239 mx dt a) = {OwnedSpin}"
| "held (MaybePurge M242 mx dt a) = {OwnedSpin, SliceSpin (fst a)}"
| "held (MaybePurge M255 mx dt a) = {OwnedSpin, SliceSpin (fst a), ChunkSpin a}"
| "held (MaybePurge M256 mx dt a) = {OwnedSpin, SliceSpin (fst a)}"
| "held (MaybePurge M257 mx dt a) = {OwnedSpin}"
| "held (MaybePurge M266 mx dt a) = {OwnedSpin, SliceSpin (fst a), ChunkSpin a}"
| "held (MaybePurge M266s mx dt a) = {OwnedSpin, SliceSpin (fst a)}"
| "held Dtor_50 = {}"
| "held (MaybeSerialize S272 a) = {}"
| "held (MaybeSerialize S284 a) = {SliceSpin (fst a)}"
| "held (MaybeSerialize S287 a) = {SliceSpin (fst a)}"
| "held (MaybeSerialize S291 a) = {SliceSpin (fst a), ChunkSpin a}"
| "held (MaybeSerialize S291s a) = {SliceSpin (fst a)}"
| "held (MaybeSerialize S309 a) = {SliceSpin (fst a), ChunkSpin a}"
| "held (MaybeSerialize S327 a) = {ChunkSpin a}"
| "held (MaybeErase E334 a) = {}"
| "held (MaybeErase E339 a) = {SliceSpin (fst a)}"
| "held (MaybeErase E342 a) = {SliceSpin (fst a)}"
| "held (MaybeErase E344 a) = {SliceSpin (fst a), ChunkSpin a}"
| "held (MaybeErase E344s a) = {SliceSpin (fst a)}"
| "held (MaybeErase E358 a) = {SliceSpin (fst a)}"

definition locks_ok :: "'t ChunkCache \<Rightarrow> bool" where
  "locks_ok s = (\<forall>t l. (m_spins s l = Some t) = (l \<in> held (frames s t)))"

text \<open>
  Two orders on the locks: the one the specification states (slice, then
  slot, then pool) and the one the code follows (pool, then slice, then slot).
\<close>

fun rank_stated :: "lock \<Rightarrow> nat" where
  "rank_stated (SliceSpin d) = 0"
| "rank_stated (ChunkSpin a) = 1"
| "rank_stated OwnedSpin = 2"

fun rank_code :: "lock \<Rightarrow> nat" where
  "rank_code OwnedSpin = 0"
| "rank_code (SliceSpin d) = 1"
| "rank_code (ChunkSpin a) = 2"

text \<open>
  A step of thread \<open>t\<close> from \<open>s\<close> to \<open>s'\<close> is in an order when every lock it
  acquires ranks above every lock the thread holds.
\<close>

definition in_order :: "(lock \<Rightarrow> nat) \<Rightarrow> 't \<Rightarrow> 't ChunkCache \<Rightarrow> 't ChunkCache \<Rightarrow> bool" where
  "in_order rk t s s' =
     (\<forall>l l'. m_spins s l \<noteq> Some t \<and> m_spins s' l = Some t \<and> m_spins s l' = Some t
        \<longrightarrow> rk l' < rk l)"

subsection \<open>The steps as a relation\<close>

text \<open>
  The successful steps of \<open>step\<close> once more, one rule for each branch, with the
  condition under which the branch is taken and the state it leads to. The
  relation is shown below to contain every step of \<open>thread_step\<close>; it is the
  form in which the invariants are proved.
\<close>

inductive steps :: "'t \<Rightarrow> 't ChunkCache \<Rightarrow> 't ChunkCache \<Rightarrow> bool" for t s where
  A86_found:
    "frames s t = AddRef A86 ck \<Longrightarrow> fst ck < length (m_slices s)
     \<Longrightarrow> m_spins s (SliceSpin (fst ck)) = None \<Longrightarrow> slot s ck = Some r
     \<Longrightarrow> steps t s (goto t (AddRef A96 ck) (lock t (SliceSpin (fst ck)) s))"
| A86_new:
    "frames s t = AddRef A86 ck \<Longrightarrow> fst ck < length (m_slices s)
     \<Longrightarrow> m_spins s (SliceSpin (fst ck)) = None \<Longrightarrow> slot s ck = None
     \<Longrightarrow> steps t s (goto t (AddRef A160 ck)
           (incr_alive (put_slot ck \<lparr>m_refs = 0, m_chunk = Some 0\<rparr>
             (lock t (SliceSpin (fst ck)) s))))"
| A96:
    "frames s t = AddRef A96 ck \<Longrightarrow> m_spins s (ChunkSpin ck) = None \<Longrightarrow> slot s ck = Some r
     \<Longrightarrow> steps t s (goto t (AddRef A99 ck) (put_slot ck (ref_add r) (lock t (ChunkSpin ck) s)))"
| A99_absent:
    "frames s t = AddRef A99 ck \<Longrightarrow> slot s ck = Some r \<Longrightarrow> m_chunk r = None
     \<Longrightarrow> m_refs r = 1 \<Longrightarrow> m_hierarchy s ck \<noteq> 0
     \<Longrightarrow> steps t s (goto t (AddRef A128 ck)
           (put_slot ck (chunk_load (m_hierarchy s ck) (ref_assign r))
             (pruner_set t ck (incr_read (unlock (SliceSpin (fst ck)) s)))))"
| A99_present:
    "frames s t = AddRef A99 ck \<Longrightarrow> slot s ck = Some r \<Longrightarrow> m_chunk r \<noteq> None
     \<Longrightarrow> steps t s (goto t (AddRef A128 ck) (pruner_set t ck (unlock (SliceSpin (fst ck)) s)))"
| A128:
    "frames s t = AddRef A128 ck
     \<Longrightarrow> steps t s (goto t (AddRef A132 ck) (unlock (ChunkSpin ck) s))"
| A132_owned:
    "frames s t = AddRef A132 ck \<Longrightarrow> m_spins s OwnedSpin = None \<Longrightarrow> ck |\<in>| m_owned s
     \<Longrightarrow> steps t s (goto t (AddRef A136 ck) (lock t OwnedSpin s))"
| A132_not_owned:
    "frames s t = AddRef A132 ck \<Longrightarrow> m_spins s OwnedSpin = None \<Longrightarrow> ck |\<notin>| m_owned s
     \<Longrightarrow> steps t s (goto t (AddRef (A142 False) ck) (lock t OwnedSpin s))"
| A136:
    "frames s t = AddRef A136 ck \<Longrightarrow> m_spins s (ChunkSpin ck) = None \<Longrightarrow> slot s ck = Some r
     \<Longrightarrow> m_refs r > 1
     \<Longrightarrow> steps t s (goto t (AddRef (A142 True) ck)
           (put_slot ck (ref_del r) (lock t (ChunkSpin ck) s)\<lparr>m_owned := m_owned s |-| {|ck|}\<rparr>))"
| A142_reclaimed:
    "frames s t = AddRef (A142 True) ck
     \<Longrightarrow> steps t s (goto t Idle (unlock (ChunkSpin ck) (unlock OwnedSpin s)))"
| A142_plain:
    "frames s t = AddRef (A142 False) ck
     \<Longrightarrow> steps t s (goto t Idle (unlock OwnedSpin s))"
| A160:
    "frames s t = AddRef A160 ck \<Longrightarrow> m_spins s (ChunkSpin ck) = None \<Longrightarrow> slot s ck = Some r
     \<Longrightarrow> m_refs r = 0 \<Longrightarrow> m_chunk r \<noteq> None
     \<Longrightarrow> steps t s (goto t (AddRef A171 ck)
           (pruner_set t ck (put_slot ck (ref_add r) (lock t (ChunkSpin ck) s))))"
| A171_load:
    "frames s t = AddRef A171 ck \<Longrightarrow> m_hierarchy s ck \<noteq> 0 \<Longrightarrow> slot s ck = Some r
     \<Longrightarrow> steps t s (goto t (AddRef A190 ck)
           (put_slot ck (chunk_load (m_hierarchy s ck) r)
             (incr_read (unlock (SliceSpin (fst ck)) s))))"
| A171_fresh:
    "frames s t = AddRef A171 ck \<Longrightarrow> m_hierarchy s ck = 0
     \<Longrightarrow> steps t s (goto t (AddRef A190 ck) (unlock (SliceSpin (fst ck)) s))"
| A190:
    "frames s t = AddRef A190 ck \<Longrightarrow> steps t s (goto t Idle (unlock (ChunkSpin ck) s))"
| P198:
    "frames s t = Prune P198 d k rest \<Longrightarrow> d < length (m_slices s)
     \<Longrightarrow> m_spins s (SliceSpin d) = None \<Longrightarrow> slot s (d, k) \<noteq> None
     \<Longrightarrow> steps t s (goto t (Prune P206 d k rest) (lock t (SliceSpin d) s))"
| P206_zero:
    "frames s t = Prune P206 d k rest \<Longrightarrow> m_spins s (ChunkSpin (d, k)) = None
     \<Longrightarrow> slot s (d, k) = Some r \<Longrightarrow> m_refs r = 1
     \<Longrightarrow> steps t s (goto t (Prune P214 d k rest)
           (put_slot (d, k) (ref_add (ref_del r)) (lock t (ChunkSpin (d, k)) s)))"
| P206_nonzero:
    "frames s t = Prune P206 d k rest \<Longrightarrow> m_spins s (ChunkSpin (d, k)) = None
     \<Longrightarrow> slot s (d, k) = Some r \<Longrightarrow> m_refs r > 1
     \<Longrightarrow> steps t s (goto t (Prune P226 d k rest)
           (put_slot (d, k) (ref_del r) (lock t (ChunkSpin (d, k)) s)))"
| P214:
    "frames s t = Prune P214 d k rest
     \<Longrightarrow> steps t s (goto t (Prune P215 d k rest) (unlock (ChunkSpin (d, k)) s))"
| P215:
    "frames s t = Prune P215 d k rest
     \<Longrightarrow> steps t s (goto t (Prune P218 d k rest) (unlock (SliceSpin d) s))"
| P218:
    "frames s t = Prune P218 d k rest \<Longrightarrow> m_spins s OwnedSpin = None \<Longrightarrow> (d, k) |\<notin>| m_owned s
     \<Longrightarrow> steps t s (goto t (Prune P222 d k rest)
           (lock t OwnedSpin s\<lparr>m_owned := finsert (d, k) (m_owned s)\<rparr>))"
| P222:
    "frames s t = Prune P222 d k rest
     \<Longrightarrow> steps t s (goto t (Prune P224 d k rest) (unlock OwnedSpin s))"
| P224_done:
    "frames s t = Prune P224 d k [] \<Longrightarrow> m_spins s (SliceSpin d) = None
     \<Longrightarrow> steps t s (goto t (Prune_227 d) (lock t (SliceSpin d) s))"
| P224_next:
    "frames s t = Prune P224 d k (k' # rest) \<Longrightarrow> m_spins s (SliceSpin d) = None
     \<Longrightarrow> slot s (d, k') \<noteq> None
     \<Longrightarrow> steps t s (goto t (Prune P206 d k' rest) (lock t (SliceSpin d) s))"
| P226_done:
    "frames s t = Prune P226 d k []
     \<Longrightarrow> steps t s (goto t (Prune_227 d) (unlock (ChunkSpin (d, k)) s))"
| P226_next:
    "frames s t = Prune P226 d k (k' # rest) \<Longrightarrow> slot s (d, k') \<noteq> None
     \<Longrightarrow> steps t s (goto t (Prune P206 d k' rest) (unlock (ChunkSpin (d, k)) s))"
| P227:
    "frames s t = Prune_227 d \<Longrightarrow> steps t s (goto t Idle (unlock (SliceSpin d) s))"
| M232_iterate:
    "frames s t = MaybePurgeLoop M232 mx dt \<Longrightarrow> m_spins s OwnedSpin = None
     \<Longrightarrow> fcard (m_owned s) > mx
     \<Longrightarrow> steps t s (goto t (MaybePurge M239 mx dt (fMax (m_owned s))) (lock t OwnedSpin s))"
| M232_exit:
    "frames s t = MaybePurgeLoop M232 mx dt \<Longrightarrow> m_spins s OwnedSpin = None
     \<Longrightarrow> \<not> fcard (m_owned s) > mx
     \<Longrightarrow> steps t s (goto t (MaybePurgeLoop M267 mx dt) (lock t OwnedSpin s))"
| M239:
    "frames s t = MaybePurge M239 mx dt a \<Longrightarrow> m_spins s (SliceSpin (fst a)) = None
     \<Longrightarrow> slot s a \<noteq> None
     \<Longrightarrow> steps t s (goto t (MaybePurge M242 mx dt a) (lock t (SliceSpin (fst a)) s))"
| M242_zero:
    "frames s t = MaybePurge M242 mx dt a \<Longrightarrow> m_spins s (ChunkSpin a) = None
     \<Longrightarrow> slot s a = Some r \<Longrightarrow> m_refs r = 1
     \<Longrightarrow> steps t s (goto t (MaybePurge M255 mx dt a)
           (put_slot a (ref_del r)
             (lock t (ChunkSpin a) s\<lparr>m_owned := m_owned s |-| {|fMax (m_owned s)|}\<rparr>)))"
| M242_nonzero:
    "frames s t = MaybePurge M242 mx dt a \<Longrightarrow> m_spins s (ChunkSpin a) = None
     \<Longrightarrow> slot s a = Some r \<Longrightarrow> m_refs r > 1 \<Longrightarrow> mx \<noteq> 0
     \<Longrightarrow> steps t s (goto t (MaybePurge M266 mx dt a)
           (put_slot a (ref_del r)
             (lock t (ChunkSpin a) s\<lparr>m_owned := m_owned s |-| {|fMax (m_owned s)|}\<rparr>)))"
| M255:
    "frames s t = MaybePurge M255 mx dt a
     \<Longrightarrow> steps t s (goto t (MaybePurge M256 mx dt a) (unlock (ChunkSpin a) s))"
| M256:
    "frames s t = MaybePurge M256 mx dt a
     \<Longrightarrow> steps t s (goto t (MaybePurge M257 mx dt a) (unlock (SliceSpin (fst a)) s))"
| M257:
    "frames s t = MaybePurge M257 mx dt a
     \<Longrightarrow> steps t s (goto t (MaybePurgeLoop M264 mx dt)
           (unlock OwnedSpin s\<lparr>m_pool := m_pool s @ [a]\<rparr>))"
| M264_iterate:
    "frames s t = MaybePurgeLoop M264 mx dt \<Longrightarrow> m_spins s OwnedSpin = None
     \<Longrightarrow> fcard (m_owned s) > mx
     \<Longrightarrow> steps t s (goto t (MaybePurge M239 mx dt (fMax (m_owned s))) (lock t OwnedSpin s))"
| M264_exit:
    "frames s t = MaybePurgeLoop M264 mx dt \<Longrightarrow> m_spins s OwnedSpin = None
     \<Longrightarrow> \<not> fcard (m_owned s) > mx
     \<Longrightarrow> steps t s (goto t (MaybePurgeLoop M267 mx dt) (lock t OwnedSpin s))"
| M266:
    "frames s t = MaybePurge M266 mx dt a
     \<Longrightarrow> steps t s (goto t (MaybePurge M266s mx dt a) (unlock (ChunkSpin a) s))"
| M266s_iterate:
    "frames s t = MaybePurge M266s mx dt a \<Longrightarrow> fcard (m_owned s) > mx
     \<Longrightarrow> steps t s (goto t (MaybePurge M239 mx dt (fMax (m_owned s)))
           (unlock (SliceSpin (fst a)) s))"
| M266s_exit:
    "frames s t = MaybePurge M266s mx dt a \<Longrightarrow> \<not> fcard (m_owned s) > mx
     \<Longrightarrow> steps t s (goto t (MaybePurgeLoop M267 mx dt) (unlock (SliceSpin (fst a)) s))"
| M267_dtor:
    "frames s t = MaybePurgeLoop M267 mx True
     \<Longrightarrow> steps t s (goto t Dtor_50 (unlock OwnedSpin s))"
| M267_return:
    "frames s t = MaybePurgeLoop M267 mx False
     \<Longrightarrow> steps t s (goto t Idle (unlock OwnedSpin s))"
| D50:
    "frames s t = Dtor_50 \<Longrightarrow> m_pool s = [] \<Longrightarrow> \<forall>u. \<not> in_task (frames s u)
     \<Longrightarrow> list_all (\<lambda>slice. slice = fmempty) (m_slices s)
     \<Longrightarrow> steps t s (goto t Idle s)"
| S272_missing:
    "frames s t = MaybeSerialize S272 a \<Longrightarrow> m_spins s (SliceSpin (fst a)) = None
     \<Longrightarrow> slot s a = None
     \<Longrightarrow> steps t s (goto t (MaybeSerialize S284 a) (lock t (SliceSpin (fst a)) s))"
| S272_found:
    "frames s t = MaybeSerialize S272 a \<Longrightarrow> m_spins s (SliceSpin (fst a)) = None
     \<Longrightarrow> slot s a \<noteq> None
     \<Longrightarrow> steps t s (goto t (MaybeSerialize S287 a) (lock t (SliceSpin (fst a)) s))"
| S284:
    "frames s t = MaybeSerialize S284 a
     \<Longrightarrow> steps t s (goto t Idle (unlock (SliceSpin (fst a)) s))"
| S287_noop:
    "frames s t = MaybeSerialize S287 a \<Longrightarrow> m_spins s (ChunkSpin a) = None
     \<Longrightarrow> slot s a = Some r \<Longrightarrow> m_refs r \<noteq> 0 \<or> m_chunk r = None
     \<Longrightarrow> steps t s (goto t (MaybeSerialize S291 a) (lock t (ChunkSpin a) s))"
| S287_serialize:
    "frames s t = MaybeSerialize S287 a \<Longrightarrow> m_spins s (ChunkSpin a) = None
     \<Longrightarrow> slot s a = Some r \<Longrightarrow> m_refs r = 0 \<Longrightarrow> m_chunk r \<noteq> None
     \<Longrightarrow> steps t s (goto t (MaybeSerialize S309 a) (lock t (ChunkSpin a) s))"
| S291:
    "frames s t = MaybeSerialize S291 a
     \<Longrightarrow> steps t s (goto t (MaybeSerialize S291s a) (unlock (ChunkSpin a) s))"
| S291s:
    "frames s t = MaybeSerialize S291s a
     \<Longrightarrow> steps t s (goto t Idle (unlock (SliceSpin (fst a)) s))"
| S309:
    "frames s t = MaybeSerialize S309 a \<Longrightarrow> slot s a = Some r \<Longrightarrow> m_chunk r = Some np
     \<Longrightarrow> np \<noteq> 0
     \<Longrightarrow> steps t s (goto t (MaybeSerialize S327 a)
           (put_slot a (ref_reset r)
             (incr_written (unlock (SliceSpin (fst a)) s)
                \<lparr>m_out := m_out s @ [(a, np)], m_hierarchy := (m_hierarchy s)(a := np)\<rparr>)))"
| S327:
    "frames s t = MaybeSerialize S327 a
     \<Longrightarrow> steps t s (goto t (MaybeErase E334 a) (unlock (ChunkSpin a) s))"
| E334_missing:
    "frames s t = MaybeErase E334 a \<Longrightarrow> m_spins s (SliceSpin (fst a)) = None
     \<Longrightarrow> slot s a = None
     \<Longrightarrow> steps t s (goto t (MaybeErase E339 a) (lock t (SliceSpin (fst a)) s))"
| E334_found:
    "frames s t = MaybeErase E334 a \<Longrightarrow> m_spins s (SliceSpin (fst a)) = None
     \<Longrightarrow> slot s a \<noteq> None
     \<Longrightarrow> steps t s (goto t (MaybeErase E342 a) (lock t (SliceSpin (fst a)) s))"
| E339:
    "frames s t = MaybeErase E339 a
     \<Longrightarrow> steps t s (goto t Idle (unlock (SliceSpin (fst a)) s))"
| E342_noop:
    "frames s t = MaybeErase E342 a \<Longrightarrow> m_spins s (ChunkSpin a) = None
     \<Longrightarrow> slot s a = Some r \<Longrightarrow> m_refs r \<noteq> 0 \<or> m_chunk r \<noteq> None
     \<Longrightarrow> steps t s (goto t (MaybeErase E344 a) (lock t (ChunkSpin a) s))"
| E342_erase:
    "frames s t = MaybeErase E342 a \<Longrightarrow> m_spins s (ChunkSpin a) = None
     \<Longrightarrow> slot s a = Some r \<Longrightarrow> m_refs r = 0 \<Longrightarrow> m_chunk r = None
     \<Longrightarrow> steps t s (goto t (MaybeErase E358 a)
           (decr_alive (unlock (ChunkSpin a) (erase_slot a (lock t (ChunkSpin a) s)))))"
| E344:
    "frames s t = MaybeErase E344 a
     \<Longrightarrow> steps t s (goto t (MaybeErase E344s a) (unlock (ChunkSpin a) s))"
| E344s:
    "frames s t = MaybeErase E344s a
     \<Longrightarrow> steps t s (goto t Idle (unlock (SliceSpin (fst a)) s))"
| E358:
    "frames s t = MaybeErase E358 a
     \<Longrightarrow> steps t s (goto t Idle (unlock (SliceSpin (fst a)) s))"

section \<open>Example states\<close>

text \<open>
  Concrete caches with two threads (\<open>True\<close> and \<open>False\<close>) and four depths,
  used to run the definitions on.
\<close>

definition empty_cache :: "bool ChunkCache" where
  "empty_cache = init 4 (\<lambda>a. 0)"

text \<open>
  A pool of two addresses, \<open>(2, (7, 7, 7))\<close> put in after \<open>(3, (0, 0, 0))\<close>, whose
  slots are resident with two points each and owned by the pool alone.
\<close>

definition pool23 :: "bool ChunkCache" where
  "pool23 =
     put_slot (2, (7, 7, 7)) \<lparr>m_refs = 1, m_chunk = Some 2\<rparr>
       (put_slot (3, (0, 0, 0)) \<lparr>m_refs = 1, m_chunk = Some 2\<rparr>
         (empty_cache\<lparr>m_owned := finsert (2, (7, 7, 7)) (finsert (3, (0, 0, 0)) {||})\<rparr>))"

text \<open>A slot at \<open>(2, (0, 0, 0))\<close> that nobody references.\<close>

definition unreffed :: "bool ChunkCache" where
  "unreffed = put_slot (2, (0, 0, 0)) \<lparr>m_refs = 0, m_chunk = Some 2\<rparr> empty_cache"

text \<open>
  A schedule of thread \<open>True\<close> alone: it takes a reference to \<open>(2, (0, 0, 0))\<close>,
  gives it back with \<^verbatim>\<open>prune\<close>, calls \<^verbatim>\<open>maybePurge(0)\<close> and takes the first
  step of it. \<open>purging\<close> is the state after the schedule, \<open>purging_next\<close> the
  state one more step of the thread later.
\<close>

definition purge_script :: "bool action list" where
  "purge_script =
     [Call True (CallAddRef (2, (0, 0, 0))), Step True, Step True, Step True, Step True,
      Call True (CallPrune 2 [(0, 0, 0)]),
      Step True, Step True, Step True, Step True, Step True, Step True, Step True, Step True,
      Call True (CallMaybePurge 0), Step True]"

definition purging :: "bool ChunkCache" where
  "purging = the (play purge_script empty_cache)"

definition purging_next :: "bool ChunkCache" where
  "purging_next = the (play (purge_script @ [Step True]) empty_cache)"

section \<open>The statistics snapshot\<close>

text \<open>
  Claim C6. The snapshot returns the current statistics, zeroes the written
  and read counters and leaves the alive counter as it is; a second snapshot
  taken right after the first one returns zero for written and read and the
  alive value of the first.
\<close>

theorem latchInfo_snapshot:
  "fst (latchInfo i) = i
   \<and> written (snd (latchInfo i)) = 0
   \<and> read (snd (latchInfo i)) = 0
   \<and> alive (snd (latchInfo i)) = alive i
   \<and> written (fst (latchInfo (snd (latchInfo i)))) = 0
   \<and> read (fst (latchInfo (snd (latchInfo i)))) = 0
   \<and> alive (fst (latchInfo (snd (latchInfo i)))) = alive (fst (latchInfo i))"
  by (simp add: latchInfo_def)

section \<open>Unfolding the model\<close>

lemmas cache_defs = thread_step_def goto_def lock_def unlock_def locked_def slot_def put_slot_def
  erase_slot_def incr_alive_def incr_read_def incr_written_def decr_alive_def pruner_set_def
  ref_add_def ref_del_def ref_exists_def ref_reset_def ref_assign_def chunk_load_def
  chunk_insert_def purge_iter_def

lemmas slices_defs = slices_find_def slices_put_def slices_erase_def

lemma slices_find_put:
  "slices_find (slices_put a r sl) b =
     (if b = a \<and> fst a < length sl then Some r else slices_find sl b)"
  using prod_eq_iff [of b a]
  by (cases "fst b = fst a"; cases "snd b = snd a") (simp_all add: slices_defs)

lemma slices_find_erase:
  "slices_find (slices_erase a sl) b = (if b = a then None else slices_find sl b)"
  using prod_eq_iff [of b a]
  by (cases "fst b = fst a"; cases "snd b = snd a") (simp_all add: slices_defs)

lemma slices_find_in_range: "slices_find sl a = Some r \<Longrightarrow> fst a < length sl"
  by (simp add: slices_defs split: if_splits)

lemma length_slices_put [simp]: "length (slices_put a r sl) = length sl"
  by (simp add: slices_defs)

lemma length_slices_erase [simp]: "length (slices_erase a sl) = length sl"
  by (simp add: slices_defs)

lemma run_Suc:
  "run (Suc n) t s =
     (case step t (frames s t) s of
        Next s' \<Rightarrow> run n t s' | Blocked \<Rightarrow> Blocked | Fail e \<Rightarrow> Fail e)"
  by (simp add: thread_step_def)

lemma run_2:
  "run 2 t s =
     (case thread_step t s of Next s' \<Rightarrow> run (Suc 0) t s' | Blocked \<Rightarrow> Blocked | Fail e \<Rightarrow> Fail e)"
  by (simp add: numeral_2_eq_2)

lemma fMax_fset_of_list: "fMax (fset_of_list xs) = Max (set xs)"
  by (simp add: fMax.F.rep_eq fset_of_list.rep_eq)

section \<open>The precondition of prune\<close>

text \<open>
  Claim C10. \<^verbatim>\<open>prune\<close> requires, by assertions, that every key of the stale
  map is in the slice of that depth and that its slot has a nonzero reference
  count when it is processed. At the head of an iteration a key that is not in
  the slice fails the assertion of line 203, and the iteration goes on only
  for a key that is there, with that very key (no entry is skipped); with the
  slot locked, a count of zero fails the assertion of line 208, and the
  decrement happens only for a nonzero count.
\<close>

theorem prune_asserts_precondition:
  "(slot s (d, k) = None \<longrightarrow> prune_iter t d (k # rest) s = Fail (AssertionFailed 203))
   \<and> (prune_iter t d (k # rest) s = Next s' \<longrightarrow>
        slot s (d, k) \<noteq> None \<and> frames s' t = Prune P206 d k rest)
   \<and> (\<not> locked (ChunkSpin (d, k)) s \<longrightarrow> slot s (d, k) = Some r \<longrightarrow> m_refs r = 0 \<longrightarrow>
        step t (Prune P206 d k rest) s = Fail (AssertionFailed 208))
   \<and> (step t (Prune P206 d k rest) s = Next s' \<longrightarrow>
        (\<exists>r. slot s (d, k) = Some r \<and> m_refs r \<noteq> 0))"
  by (auto simp: cache_defs Let_def split: if_splits option.splits)

theorem prune_asserts_precondition_witness:
  "slot empty_cache (2, (0, 0, 0)) = None
   \<and> prune_iter True 2 [(0, 0, 0)] empty_cache = Fail (AssertionFailed 203)
   \<and> \<not> locked (ChunkSpin (2, (0, 0, 0))) unreffed
   \<and> slot unreffed (2, (0, 0, 0)) = Some \<lparr>m_refs = 0, m_chunk = Some 2\<rparr>
   \<and> step True (Prune P206 2 (0, 0, 0) []) unreffed = Fail (AssertionFailed 208)"
proof -
  have a: "slot empty_cache (2, (0, 0, 0)) = None"
    by (simp add: empty_cache_def init_def cache_defs slices_defs)
  have b: "\<not> locked (ChunkSpin (2, (0, 0, 0))) unreffed"
    by (simp add: unreffed_def empty_cache_def init_def cache_defs slices_defs)
  have c: "slot unreffed (2, (0, 0, 0)) = Some \<lparr>m_refs = 0, m_chunk = Some 2\<rparr>"
    by (simp add: unreffed_def empty_cache_def init_def cache_defs slices_defs)
  have "prune_iter True 2 [(0, 0, 0)] empty_cache = Fail (AssertionFailed 203)"
    by (rule prune_asserts_precondition
          [of empty_cache 2 "(0, 0, 0)" True "[]", THEN conjunct1, rule_format, OF a])
  moreover have "step True (Prune P206 2 (0, 0, 0) []) unreffed = Fail (AssertionFailed 208)"
    by (rule prune_asserts_precondition
          [of unreffed 2 "(0, 0, 0)" True "[]", THEN conjunct2, THEN conjunct2, THEN conjunct1,
           rule_format, OF b c]) simp
  ultimately show ?thesis using a b c by blast
qed

section \<open>The eviction order of maybePurge\<close>

text \<open>
  Claim C5. While the pool is larger than the requested maximum, the head of
  the loop of \<^verbatim>\<open>maybePurge\<close> selects the address of the pool that is greatest
  in the order of addresses (by depth, then by position); the choice depends
  on the pool's elements only, whatever the order \<open>xs\<close> they were put in; and
  the iteration, once it holds the locks of the slice and of the slot, removes
  that address from the pool.
\<close>

theorem maybePurge_evicts_greatest:
  assumes "fcard (m_owned s) > mx"
  shows "\<exists>a. purge_iter t mx dt s = Next (goto t (MaybePurge M239 mx dt a) s)
     \<and> a |\<in>| m_owned s \<and> (\<forall>b. b |\<in>| m_owned s \<longrightarrow> b \<le> a)
     \<and> (\<forall>d p. ((d, p) \<le> a) = (d < fst a \<or> d = fst a \<and> p \<le> snd a))
     \<and> (\<forall>xs. m_owned s = fset_of_list xs \<longrightarrow> a = Max (set xs))
     \<and> (\<forall>r. \<not> locked (SliceSpin (fst a)) s \<and> \<not> locked (ChunkSpin a) s
            \<and> slot s a = Some r \<and> m_refs r \<noteq> 0 \<and> (mx \<noteq> 0 \<or> m_refs r = 1) \<longrightarrow>
          (\<exists>s'. run 2 t (goto t (MaybePurge M239 mx dt a) s) = Next s'
             \<and> m_owned s' = m_owned s |-| {|a|}))"
proof -
  from assms have ne: "m_owned s \<noteq> {||}" by (auto simp: fcard_fempty)
  let ?a = "fMax (m_owned s)"
  have sel: "purge_iter t mx dt s = Next (goto t (MaybePurge M239 mx dt ?a) s)"
    using assms by (simp add: purge_iter_def)
  have mem: "?a |\<in>| m_owned s" using ne by simp
  have ge: "\<forall>b. b |\<in>| m_owned s \<longrightarrow> b \<le> ?a" by simp
  have lex: "\<forall>d p. ((d, p) \<le> ?a) = (d < fst ?a \<or> d = fst ?a \<and> p \<le> snd ?a)"
    by (cases ?a) (auto simp: less_eq_prod_def)
  have lst: "\<forall>xs. m_owned s = fset_of_list xs \<longrightarrow> ?a = Max (set xs)"
    by (simp add: fMax_fset_of_list)
  have rm: "\<forall>r. \<not> locked (SliceSpin (fst ?a)) s \<and> \<not> locked (ChunkSpin ?a) s
            \<and> slot s ?a = Some r \<and> m_refs r \<noteq> 0 \<and> (mx \<noteq> 0 \<or> m_refs r = 1) \<longrightarrow>
          (\<exists>s'. run 2 t (goto t (MaybePurge M239 mx dt ?a) s) = Next s'
             \<and> m_owned s' = m_owned s |-| {|?a|})"
    by (auto simp: run_2 cache_defs Let_def split: if_splits)
  from sel mem ge lex lst rm show ?thesis
    by (intro exI [of _ ?a] conjI)
qed

theorem maybePurge_evicts_greatest_witness:
  "fcard (m_owned pool23) > 0
   \<and> purge_iter True 0 False pool23
       = Next (goto True (MaybePurge M239 0 False (3, (0, 0, 0))) pool23)
   \<and> (\<exists>s'. run 2 True (goto True (MaybePurge M239 0 False (3, (0, 0, 0))) pool23) = Next s'
         \<and> m_owned s' = {|(2, (7, 7, 7))|})"
proof -
  have c: "fcard (m_owned pool23) > 0"
    by (simp add: pool23_def empty_cache_def init_def cache_defs slices_defs fcard_finsert_if)
  have m: "m_owned pool23 = fset_of_list [(2, (7, 7, 7)), (3, (0, 0, 0))]"
    by (simp add: pool23_def empty_cache_def init_def cache_defs slices_defs)
  have l: "\<not> locked (SliceSpin 3) pool23 \<and> \<not> locked (ChunkSpin (3, (0, 0, 0))) pool23
      \<and> slot pool23 (3, (0, 0, 0)) = Some \<lparr>m_refs = 1, m_chunk = Some 2\<rparr>"
    by (simp add: pool23_def empty_cache_def init_def cache_defs slices_defs)
  from maybePurge_evicts_greatest [OF c, of True False] obtain a where
    a: "purge_iter True 0 False pool23 = Next (goto True (MaybePurge M239 0 False a) pool23)"
       "\<forall>xs. m_owned pool23 = fset_of_list xs \<longrightarrow> a = Max (set xs)"
       "\<forall>r. \<not> locked (SliceSpin (fst a)) pool23 \<and> \<not> locked (ChunkSpin a) pool23
            \<and> slot pool23 a = Some r \<and> m_refs r \<noteq> 0 \<and> ((0::nat) \<noteq> 0 \<or> m_refs r = 1) \<longrightarrow>
          (\<exists>s'. run 2 True (goto True (MaybePurge M239 0 False a) pool23) = Next s'
             \<and> m_owned s' = m_owned pool23 |-| {|a|})"
    by blast
  from a(2) [rule_format, OF m] have e: "a = (3, (0, 0, 0))" by (simp add: less_eq_prod_def max_def)
  have l': "\<not> locked (SliceSpin (fst a)) pool23 \<and> \<not> locked (ChunkSpin a) pool23
      \<and> slot pool23 a = Some \<lparr>m_refs = 1, m_chunk = Some 2\<rparr>
      \<and> m_refs \<lparr>m_refs = 1, m_chunk = Some 2\<rparr> \<noteq> 0
      \<and> ((0::nat) \<noteq> 0 \<or> m_refs \<lparr>m_refs = 1, m_chunk = Some 2\<rparr> = 1)"
    using l e by simp
  from a(3) [rule_format, OF l'] e
  obtain s' where s': "run 2 True (goto True (MaybePurge M239 0 False (3, (0, 0, 0))) pool23) = Next s'"
    "m_owned s' = m_owned pool23 |-| {|(3, (0, 0, 0))|}" by blast
  have d: "m_owned pool23 |-| {|(3, (0, 0, 0))|} = {|(2, (7, 7, 7))|}"
    by (simp add: pool23_def empty_cache_def init_def cache_defs slices_defs) auto
  from s' d have "\<exists>s'. run 2 True (goto True (MaybePurge M239 0 False (3, (0, 0, 0))) pool23) = Next s'
         \<and> m_owned s' = {|(2, (7, 7, 7))|}" by simp
  with c a(1) e show ?thesis by simp
qed

section \<open>Serialization happens once\<close>

lemmas exec_simps = cache_defs Let_def fun_upd_idem slices_find_put slices_find_erase

lemma maybeSerialize_missing:
  assumes "frames s t = Idle" "\<not> locked (SliceSpin (fst a)) s" "slot s a = None"
  shows "run 2 t (goto t (MaybeSerialize S272 a) s) = Next s"
  using assms by (simp add: eval_nat_numeral exec_simps)

lemma maybeSerialize_reclaimed_or_absent:
  assumes "frames s t = Idle" "\<not> locked (SliceSpin (fst a)) s" "\<not> locked (ChunkSpin a) s"
    "slot s a = Some r" "m_refs r \<noteq> 0 \<or> m_chunk r = None"
  shows "run 4 t (goto t (MaybeSerialize S272 a) s) = Next s"
  using assms by (auto simp add: eval_nat_numeral exec_simps)

lemma maybeSerialize_writes:
  assumes "frames s t = Idle" "\<not> locked (SliceSpin (fst a)) s" "\<not> locked (ChunkSpin a) s"
    "slot s a = Some r" "m_refs r = 0" "m_chunk r = Some c" "c \<noteq> 0"
  shows "\<exists>s'. run 7 t (goto t (MaybeSerialize S272 a) s) = Next s'
          \<and> m_out s' = m_out s @ [(a, c)] \<and> m_hierarchy s' = (m_hierarchy s)(a := c)
          \<and> written (info s') = written (info s) + 1 \<and> slot s' a = None
          \<and> frames s' t = Idle \<and> \<not> locked (SliceSpin (fst a)) s'"
  using assms
  by (auto simp add: eval_nat_numeral exec_simps dest: slices_find_in_range)

text \<open>
  Claim C4. A thread that runs \<^verbatim>\<open>maybeSerialize\<close> for an address, with the
  locks it needs free, leaves the whole state as it was (nothing saved, the
  hierarchy and the written counter untouched) when the slot is missing, when
  its reference count is not zero, or when its content is absent. When the
  slot is unreferenced and resident (with a nonzero number of points, as the
  assertion of line 320 requires), the call saves the content once, sets the
  hierarchy entry, counts one write, and a second call right after it changes
  nothing.
\<close>

theorem maybeSerialize_idempotent:
  assumes "frames s t = Idle" "\<not> locked (SliceSpin (fst a)) s" "\<not> locked (ChunkSpin a) s"
  shows "(slot s a = None \<longrightarrow> run 2 t (goto t (MaybeSerialize S272 a) s) = Next s)
   \<and> (\<forall>r. slot s a = Some r \<and> (m_refs r \<noteq> 0 \<or> m_chunk r = None) \<longrightarrow>
          run 4 t (goto t (MaybeSerialize S272 a) s) = Next s)
   \<and> (\<forall>r c. slot s a = Some r \<and> m_refs r = 0 \<and> m_chunk r = Some c \<and> c \<noteq> 0 \<longrightarrow>
        (\<exists>s'. run 7 t (goto t (MaybeSerialize S272 a) s) = Next s'
           \<and> m_out s' = m_out s @ [(a, c)]
           \<and> m_hierarchy s' = (m_hierarchy s)(a := c)
           \<and> written (info s') = written (info s) + 1
           \<and> run 2 t (goto t (MaybeSerialize S272 a) s') = Next s'))"
proof (intro conjI allI impI)
  assume "slot s a = None"
  with assms show "run 2 t (goto t (MaybeSerialize S272 a) s) = Next s"
    by (simp add: maybeSerialize_missing)
next
  fix r assume "slot s a = Some r \<and> (m_refs r \<noteq> 0 \<or> m_chunk r = None)"
  with assms show "run 4 t (goto t (MaybeSerialize S272 a) s) = Next s"
    by (simp add: maybeSerialize_reclaimed_or_absent)
next
  fix r c assume h: "slot s a = Some r \<and> m_refs r = 0 \<and> m_chunk r = Some c \<and> c \<noteq> 0"
  then have h': "slot s a = Some r" "m_refs r = 0" "m_chunk r = Some c" "c \<noteq> 0"
    by simp_all
  from maybeSerialize_writes [OF assms h']
  obtain s' where s': "run 7 t (goto t (MaybeSerialize S272 a) s) = Next s'"
    "m_out s' = m_out s @ [(a, c)]" "m_hierarchy s' = (m_hierarchy s)(a := c)"
    "written (info s') = written (info s) + 1" "slot s' a = None"
    "frames s' t = Idle" "\<not> locked (SliceSpin (fst a)) s'"
    by blast
  from s'(5-7) have "run 2 t (goto t (MaybeSerialize S272 a) s') = Next s'"
    by (rule maybeSerialize_missing [rotated 2])
  with s'(1-4) show "\<exists>s'. run 7 t (goto t (MaybeSerialize S272 a) s) = Next s'
           \<and> m_out s' = m_out s @ [(a, c)]
           \<and> m_hierarchy s' = (m_hierarchy s)(a := c)
           \<and> written (info s') = written (info s) + 1
           \<and> run 2 t (goto t (MaybeSerialize S272 a) s') = Next s'"
    by blast
qed

theorem maybeSerialize_idempotent_witness:
  "frames unreffed True = Idle
   \<and> \<not> locked (SliceSpin 2) unreffed \<and> \<not> locked (ChunkSpin (2, (0, 0, 0))) unreffed
   \<and> (\<exists>s'. run 7 True (goto True (MaybeSerialize S272 (2, (0, 0, 0))) unreffed) = Next s'
         \<and> m_out s' = [((2, (0, 0, 0)), 2)]
         \<and> run 2 True (goto True (MaybeSerialize S272 (2, (0, 0, 0))) s') = Next s')"
proof -
  have f: "frames unreffed True = Idle"
    by (simp add: unreffed_def empty_cache_def init_def cache_defs)
  have l1: "\<not> locked (SliceSpin (fst (2::nat, (0::nat, 0::nat, 0::nat)))) unreffed"
    by (simp add: unreffed_def empty_cache_def init_def cache_defs)
  have l2: "\<not> locked (ChunkSpin (2, (0, 0, 0))) unreffed"
    by (simp add: unreffed_def empty_cache_def init_def cache_defs)
  have sl: "slot unreffed (2, (0, 0, 0)) = Some \<lparr>m_refs = 0, m_chunk = Some 2\<rparr>
      \<and> m_refs \<lparr>m_refs = 0, m_chunk = Some 2\<rparr> = 0
      \<and> m_chunk \<lparr>m_refs = 0, m_chunk = Some 2\<rparr> = Some 2 \<and> (2::nat) \<noteq> 0"
    by (simp add: unreffed_def empty_cache_def init_def cache_defs slices_defs)
  have o: "m_out unreffed = []"
    by (simp add: unreffed_def empty_cache_def init_def cache_defs)
  from maybeSerialize_idempotent [OF f l1 l2, THEN conjunct2, THEN conjunct2, rule_format, OF sl]
  obtain s' where "run 7 True (goto True (MaybeSerialize S272 (2, (0, 0, 0))) unreffed) = Next s'"
    "m_out s' = m_out unreffed @ [((2, (0, 0, 0)), 2)]"
    "run 2 True (goto True (MaybeSerialize S272 (2, (0, 0, 0))) s') = Next s'"
    by blast
  with o have "\<exists>s'. run 7 True (goto True (MaybeSerialize S272 (2, (0, 0, 0))) unreffed) = Next s'
         \<and> m_out s' = [((2, (0, 0, 0)), 2)]
         \<and> run 2 True (goto True (MaybeSerialize S272 (2, (0, 0, 0))) s') = Next s'"
    by auto
  with f l1 l2 show ?thesis by simp
qed

section \<open>Which thread holds which lock\<close>

text \<open>
  In every reachable state the owner of each lock is the thread whose frame
  says it holds it.
\<close>

lemma locks_okD: "locks_ok s \<Longrightarrow> (m_spins s l = Some u) = (l \<in> held (frames s u))"
  by (simp add: locks_ok_def)

lemma locks_ok_free: "locks_ok s \<Longrightarrow> m_spins s l = None \<Longrightarrow> l \<notin> held (frames s u)"
  by (metis locks_ok_def option.distinct(1))

lemma locks_ok_excl:
  "locks_ok s \<Longrightarrow> l \<in> held (frames s t) \<Longrightarrow> u \<noteq> t \<Longrightarrow> (l \<in> held (frames s u)) = False"
  by (metis locks_ok_def option.inject)

lemma locks_ok_init: "locks_ok (init n h)"
  by (simp add: locks_ok_def init_def)

lemma invoke_frames:
  assumes "frames s t = Idle" "invoke t c s = Some s'"
  shows "m_spins s' = m_spins s \<and> held (frames s' t) = {}
    \<and> (\<forall>u. u \<noteq> t \<longrightarrow> frames s' u = frames s u)"
proof (cases c)
  case (CallPrune d ks)
  with assms show ?thesis
    by (cases ks) (auto simp: cache_defs)
qed (insert assms, auto simp: cache_defs split: option.splits list.splits if_splits)

lemma locks_ok_invoke:
  assumes "locks_ok s" "frames s t = Idle" "invoke t c s = Some s'"
  shows "locks_ok s'"
  unfolding locks_ok_def
proof (intro allI)
  fix u l
  from invoke_frames [OF assms(2,3)] assms(1,2)
  show "(m_spins s' l = Some u) = (l \<in> held (frames s' u))"
    by (cases "u = t") (auto simp: locks_ok_def)
qed

lemma locks_ok_step:
  assumes ok: "locks_ok s" and st: "thread_step t s = Next s'"
  shows "locks_ok s'"
proof -
  note F = locks_okD [OF ok] and N = locks_ok_free [OF ok] and X = locks_ok_excl [OF ok, of _ t]
  show ?thesis
  proof (cases "frames s t")
    case Idle
    with st show ?thesis by (simp add: thread_step_def)
  next
    case (AddRef pc ck)
    with st F [of _ t] show ?thesis
      apply (cases pc)
      apply (auto simp: locks_ok_def cache_defs Let_def F X dest: N split: if_splits option.splits)
      done
  next
    case (Prune pc d k rest)
    with st F [of _ t] show ?thesis
      apply (cases pc; cases rest)
      apply (auto simp: locks_ok_def cache_defs Let_def F X dest: N split: if_splits option.splits)
      done
  next
    case (Prune_227 d)
    with st F [of _ t] show ?thesis
      by (auto simp: locks_ok_def cache_defs Let_def F X dest: N split: if_splits option.splits)
  next
    case (MaybePurge pc mx dt a)
    with st F [of _ t] show ?thesis
      apply (cases pc)
      apply (auto simp: locks_ok_def cache_defs Let_def F X dest: N split: if_splits option.splits)
      done
  next
    case (MaybePurgeLoop pc mx dt)
    with st F [of _ t] show ?thesis
      apply (cases pc)
      apply (auto simp: locks_ok_def cache_defs Let_def F X dest: N split: if_splits option.splits)
      done
  next
    case Dtor_50
    with st F [of _ t] show ?thesis
      by (auto simp: locks_ok_def cache_defs Let_def F X dest: N split: if_splits option.splits)
  next
    case (MaybeSerialize pc a)
    with st F [of _ t] show ?thesis
      apply (cases pc)
      apply (auto simp: locks_ok_def cache_defs Let_def F X dest: N split: if_splits option.splits)
      done
  next
    case (MaybeErase pc a)
    with st F [of _ t] show ?thesis
      apply (cases pc)
      apply (auto simp: locks_ok_def cache_defs Let_def F X dest: N split: if_splits option.splits)
      done
  qed
qed

lemma reachable_locks_ok: "reachable n h s \<Longrightarrow> locks_ok s"
  by (induction rule: reachable.induct)
     (auto intro: locks_ok_init locks_ok_invoke locks_ok_step)

lemma reachable_play:
  "reachable n h s \<Longrightarrow> play acts s = Some s' \<Longrightarrow> reachable n h s'"
proof (induction acts arbitrary: s)
  case Nil
  then show ?case by simp
next
  case (Cons a acts)
  show ?case
  proof (cases a)
    case (Call t c)
    with Cons.prems obtain s1 where
      "frames s t = Idle" "allowed t c s" "invoke t c s = Some s1" "play acts s1 = Some s'"
      by (auto split: if_splits option.splits)
    with Cons.prems(1) Cons.IH [of s1] show ?thesis
      by (blast intro: reachable_call)
  next
    case (Step t)
    with Cons.prems obtain s1 where "thread_step t s = Next s1" "play acts s1 = Some s'"
      by (auto split: outcome.splits)
    with Cons.prems(1) Cons.IH [of s1] show ?thesis
      by (blast intro: reachable_step)
  qed
qed

section \<open>The order of lock acquisition\<close>

lemma step_in_order_code:
  assumes ok: "locks_ok s" and st: "thread_step t s = Next s'"
  shows "in_order rank_code t s s'"
proof -
  note F = locks_okD [OF ok]
  show ?thesis
  proof (cases "frames s t")
    case Idle
    with st show ?thesis by (simp add: thread_step_def)
  next
    case (AddRef pc ck)
    with st F [of _ t] show ?thesis
      by (cases pc)
         (auto simp: in_order_def cache_defs Let_def F split: if_splits option.splits)
  next
    case (Prune pc d k rest)
    with st F [of _ t] show ?thesis
      by (cases pc; cases rest)
         (auto simp: in_order_def cache_defs Let_def F split: if_splits option.splits)
  next
    case (Prune_227 d)
    with st F [of _ t] show ?thesis
      by (auto simp: in_order_def cache_defs Let_def F split: if_splits option.splits)
  next
    case (MaybePurge pc mx dt a)
    with st F [of _ t] show ?thesis
      by (cases pc)
         (auto simp: in_order_def cache_defs Let_def F split: if_splits option.splits)
  next
    case (MaybePurgeLoop pc mx dt)
    with st F [of _ t] show ?thesis
      by (cases pc)
         (auto simp: in_order_def cache_defs Let_def F split: if_splits option.splits)
  next
    case Dtor_50
    with st F [of _ t] show ?thesis
      by (auto simp: in_order_def cache_defs Let_def F split: if_splits option.splits)
  next
    case (MaybeSerialize pc a)
    with st F [of _ t] show ?thesis
      by (cases pc)
         (auto simp: in_order_def cache_defs Let_def F split: if_splits option.splits)
  next
    case (MaybeErase pc a)
    with st F [of _ t] show ?thesis
      by (cases pc)
         (auto simp: in_order_def cache_defs Let_def F split: if_splits option.splits)
  qed
qed

lemmas play_simps = empty_cache_def init_def cache_defs slices_defs Let_def all_bool_eq
  fcard_finsert_if

lemma purging_reachable: "reachable 4 (m_hierarchy empty_cache) purging"
proof -
  have "play purge_script empty_cache = Some purging"
    by (simp add: purging_def purge_script_def play_simps)
  moreover have "reachable 4 (m_hierarchy empty_cache) (empty_cache :: bool ChunkCache)"
    using reachable_init [of 4 "\<lambda>a. 0"] by (simp add: empty_cache_def init_def)
  ultimately show ?thesis by (rule reachable_play [rotated])
qed

lemma purging_step: "thread_step True purging = Next purging_next"
  by (simp add: purging_def purging_next_def purge_script_def play_simps)

text \<open>
  Claim C1, as stated, fails. In the reachable state \<open>purging\<close> thread \<open>True\<close> is
  inside \<^verbatim>\<open>maybePurge\<close> (line 239) and holds the pool lock; its next step
  acquires the lock of slice 2. In the stated order (slice, slot, pool) the
  pool lock is the innermost one, so the step is not in that order.
\<close>

theorem lock_order_stated_counterexample:
  "reachable 4 (m_hierarchy empty_cache) purging
   \<and> thread_step True purging = Next purging_next
   \<and> m_spins purging OwnedSpin = Some True
   \<and> m_spins purging (SliceSpin 2) \<noteq> Some True
   \<and> m_spins purging_next (SliceSpin 2) = Some True
   \<and> \<not> in_order rank_stated True purging purging_next"
proof -
  have a: "m_spins purging OwnedSpin = Some True"
    by (simp add: purging_def purge_script_def play_simps)
  have b: "m_spins purging (SliceSpin 2) \<noteq> Some True"
    by (simp add: purging_def purge_script_def play_simps)
  have c: "m_spins purging_next (SliceSpin 2) = Some True"
    by (simp add: purging_next_def purge_script_def play_simps)
  have "\<not> in_order rank_stated True purging purging_next"
  proof
    assume "in_order rank_stated True purging purging_next"
    with a b c have "rank_stated OwnedSpin < rank_stated (SliceSpin 2)"
      unfolding in_order_def by blast
    then show False by simp
  qed
  with purging_reachable purging_step a b c show ?thesis by blast
qed

text \<open>
  Claim C1, amended. In every reachable state, every step of a thread that
  acquires a lock acquires one that comes, in the order pool lock, slice lock,
  slot lock, after every lock the thread holds. (\<^verbatim>\<open>maybePurge\<close> takes the pool
  lock, then the slice lock, then the slot lock; the reclaim branch of
  \<^verbatim>\<open>addRef\<close> takes the slot lock under the pool lock; \<^verbatim>\<open>prune\<close> and \<^verbatim>\<open>addRef\<close>
  give up their slice and slot locks before they take the pool lock.)
\<close>

theorem lock_order_code:
  "reachable n h s \<Longrightarrow> thread_step t s = Next s' \<Longrightarrow> in_order rank_code t s s'"
  by (rule step_in_order_code [OF reachable_locks_ok])

theorem lock_order_code_witness:
  "reachable 4 (m_hierarchy empty_cache) purging
   \<and> thread_step True purging = Next purging_next
   \<and> in_order rank_code True purging purging_next"
  using lock_order_code [OF purging_reachable purging_step] purging_reachable purging_step
  by blast

section \<open>Every step is one of the rules\<close>

lemma through [simp]:
  "slot (lock t l s) a = slot s a"
  "m_owned (lock t l s) = m_owned s"
  "m_hierarchy (lock t l s) = m_hierarchy s"
  "m_pool (lock t l s) = m_pool s"
  "m_out (lock t l s) = m_out s"
  "length (m_slices (lock t l s)) = length (m_slices s)"
  "slot (unlock l s) a = slot s a"
  "m_owned (unlock l s) = m_owned s"
  "m_hierarchy (unlock l s) = m_hierarchy s"
  "m_pool (unlock l s) = m_pool s"
  "m_out (unlock l s) = m_out s"
  "length (m_slices (unlock l s)) = length (m_slices s)"
  "slot (goto t f s) a = slot s a"
  "m_owned (goto t f s) = m_owned s"
  "m_hierarchy (goto t f s) = m_hierarchy s"
  "m_pool (goto t f s) = m_pool s"
  "m_out (goto t f s) = m_out s"
  "length (m_slices (goto t f s)) = length (m_slices s)"
  "slot (pruner_set t b s) a = slot s a"
  "m_owned (pruner_set t b s) = m_owned s"
  "m_hierarchy (pruner_set t b s) = m_hierarchy s"
  "m_pool (pruner_set t b s) = m_pool s"
  "m_out (pruner_set t b s) = m_out s"
  "length (m_slices (pruner_set t b s)) = length (m_slices s)"
  "slot (incr_read s) a = slot s a"
  "m_owned (incr_read s) = m_owned s"
  "m_hierarchy (incr_read s) = m_hierarchy s"
  "m_pool (incr_read s) = m_pool s"
  "m_out (incr_read s) = m_out s"
  "length (m_slices (incr_read s)) = length (m_slices s)"
  "slot (incr_written s) a = slot s a"
  "m_owned (incr_written s) = m_owned s"
  "m_hierarchy (incr_written s) = m_hierarchy s"
  "m_pool (incr_written s) = m_pool s"
  "m_out (incr_written s) = m_out s"
  "length (m_slices (incr_written s)) = length (m_slices s)"
  "slot (incr_alive s) a = slot s a"
  "m_owned (incr_alive s) = m_owned s"
  "m_hierarchy (incr_alive s) = m_hierarchy s"
  "m_pool (incr_alive s) = m_pool s"
  "m_out (incr_alive s) = m_out s"
  "length (m_slices (incr_alive s)) = length (m_slices s)"
  "slot (decr_alive s) a = slot s a"
  "m_owned (decr_alive s) = m_owned s"
  "m_hierarchy (decr_alive s) = m_hierarchy s"
  "m_pool (decr_alive s) = m_pool s"
  "m_out (decr_alive s) = m_out s"
  "length (m_slices (decr_alive s)) = length (m_slices s)"
  "slot (s\<lparr>m_owned := ow\<rparr>) a = slot s a"
  "slot (s\<lparr>m_pool := q\<rparr>) a = slot s a"
  "slot (s\<lparr>m_out := out, m_hierarchy := hi\<rparr>) a = slot s a"
  by (simp_all add: cache_defs)

lemma through_frames [simp]:
  "frames (lock t l s) = frames s" "frames (unlock l s) = frames s"
  "frames (pruner_set t b s) = frames s" "frames (incr_read s) = frames s"
  "frames (incr_written s) = frames s" "frames (incr_alive s) = frames s"
  "frames (decr_alive s) = frames s" "frames (put_slot a r s) = frames s"
  "frames (erase_slot a s) = frames s" "frames (goto t f s) = (frames s)(t := f)"
  by (simp_all add: cache_defs)

lemma through_spins [simp]:
  "m_spins (lock t l s) = (m_spins s)(l \<mapsto> t)" "m_spins (unlock l s) = (m_spins s)(l := None)"
  "m_spins (pruner_set t b s) = m_spins s" "m_spins (incr_read s) = m_spins s"
  "m_spins (incr_written s) = m_spins s" "m_spins (incr_alive s) = m_spins s"
  "m_spins (decr_alive s) = m_spins s" "m_spins (put_slot a r s) = m_spins s"
  "m_spins (erase_slot a s) = m_spins s" "m_spins (goto t f s) = m_spins s"
  by (simp_all add: cache_defs)

lemma through_slot [simp]:
  "slot (put_slot a r s) b = (if b = a \<and> fst a < length (m_slices s) then Some r else slot s b)"
  "slot (erase_slot a s) b = (if b = a then None else slot s b)"
  "m_owned (put_slot a r s) = m_owned s" "m_owned (erase_slot a s) = m_owned s"
  "m_hierarchy (put_slot a r s) = m_hierarchy s" "m_hierarchy (erase_slot a s) = m_hierarchy s"
  "m_pool (put_slot a r s) = m_pool s" "m_pool (erase_slot a s) = m_pool s"
  "m_out (put_slot a r s) = m_out s" "m_out (erase_slot a s) = m_out s"
  "length (m_slices (put_slot a r s)) = length (m_slices s)"
  "length (m_slices (erase_slot a s)) = length (m_slices s)"
  by (simp_all add: cache_defs slices_find_put slices_find_erase)

lemma m_refs_del: "m_refs (ref_del r) = m_refs r - 1"
  by (simp add: ref_del_def)

lemma slot_in_range: "slot s a = Some r \<Longrightarrow> fst a < length (m_slices s)"
  by (simp add: slot_def slices_find_in_range)

lemma steps_complete:
  assumes st: "thread_step t s = Next s'"
  shows "steps t s s'"
proof (cases "frames s t")
  case Idle
  with st show ?thesis by (simp add: thread_step_def)
next
  case (AddRef pc ck)
  with st show ?thesis
    by (cases pc)
       (auto simp: thread_step_def Let_def locked_def ref_exists_def
          split: if_splits option.splits intro: steps.intros)
next
  case (Prune pc d k rest)
  with st show ?thesis
    by (cases pc; cases rest)
       (auto simp: thread_step_def Let_def locked_def ref_exists_def m_refs_del
          split: if_splits option.splits intro: steps.intros)
next
  case (Prune_227 d)
  with st show ?thesis
    by (auto simp: thread_step_def intro: steps.intros)
next
  case (MaybePurge pc mx dt a)
  with st show ?thesis
    by (cases pc)
       (auto simp: thread_step_def Let_def locked_def ref_exists_def m_refs_del purge_iter_def
          split: if_splits option.splits intro: steps.intros)
next
  case (MaybePurgeLoop pc mx dt)
  with st show ?thesis
    by (cases pc; cases dt)
       (auto simp: thread_step_def Let_def locked_def purge_iter_def
          split: if_splits option.splits intro: steps.intros)
next
  case Dtor_50
  with st show ?thesis
    by (auto simp: thread_step_def split: if_splits intro: steps.intros)
next
  case (MaybeSerialize pc a)
  with st show ?thesis
    by (cases pc)
       (auto simp: thread_step_def Let_def locked_def ref_exists_def
          split: if_splits option.splits intro: steps.intros)
next
  case (MaybeErase pc a)
  with st show ?thesis
    by (cases pc)
       (auto simp: thread_step_def Let_def locked_def ref_exists_def
          split: if_splits option.splits intro: steps.intros)
qed

end
